theory Spec2Isabelle
  imports Main
begin

section \<open>JavaScript strings\<close>

text \<open>
  The program is \<^verbatim>\<open>src/script.js\<close>. A JavaScript string is a sequence of code
  units and is modelled as a HOL \<^typ>\<open>string\<close>: a \<^typ>\<open>char\<close> stands for the code unit
  of the same number, so the model covers the strings of code units below 256 (ASCII and
  Latin-1). White space and the case mappings below are those of JavaScript on these
  code units, with one limit: the upper-case forms of U+00FF and U+00B5 are U+0178 and
  U+039C, which no \<^typ>\<open>char\<close> denotes; the model leaves these two characters unchanged,
  and a statement about upper-casing arbitrary text excludes them.
\<close>

abbreviation TAB :: char where
  "TAB \<equiv> CHR 0x09"

abbreviation NL :: char where
  "NL \<equiv> CHR 0x0A"

text \<open>
  The white space of \<^verbatim>\<open>trim()\<close> and \<^verbatim>\<open>\s\<close> (WhiteSpace and LineTerminator)
  below 256: tab, line feed, vertical tab, form feed, carriage return, space and the
  no-break space U+00A0.
\<close>

definition isWhiteSpace :: "char \<Rightarrow> bool" where
  "isWhiteSpace c =
     (c \<in> set [CHR 0x09, CHR 0x0A, CHR 0x0B, CHR 0x0C, CHR 0x0D, CHR 0x20, CHR 0xA0])"

definition isDigit :: "char \<Rightarrow> bool" where
  "isDigit c = (c \<in> set ''0123456789'')"

definition lowerLetters :: string where
  "lowerLetters = ''abcdefghijklmnopqrstuvwxyz''"

definition upperLetters :: string where
  "upperLetters = ''ABCDEFGHIJKLMNOPQRSTUVWXYZ''"

text \<open>
  The Latin-1 letters with a case partner below 256: U+00E0 to U+00FE without the
  division sign U+00F7, and U+00C0 to U+00DE without the multiplication sign U+00D7.
\<close>

definition latin1LowerLetters :: string where
  "latin1LowerLetters = [
      CHR 0xE0, CHR 0xE1, CHR 0xE2, CHR 0xE3, CHR 0xE4, CHR 0xE5, CHR 0xE6, CHR 0xE7,
      CHR 0xE8, CHR 0xE9, CHR 0xEA, CHR 0xEB, CHR 0xEC, CHR 0xED, CHR 0xEE, CHR 0xEF,
      CHR 0xF0, CHR 0xF1, CHR 0xF2, CHR 0xF3, CHR 0xF4, CHR 0xF5, CHR 0xF6, CHR 0xF8,
      CHR 0xF9, CHR 0xFA, CHR 0xFB, CHR 0xFC, CHR 0xFD, CHR 0xFE]"

definition latin1UpperLetters :: string where
  "latin1UpperLetters = [
      CHR 0xC0, CHR 0xC1, CHR 0xC2, CHR 0xC3, CHR 0xC4, CHR 0xC5, CHR 0xC6, CHR 0xC7,
      CHR 0xC8, CHR 0xC9, CHR 0xCA, CHR 0xCB, CHR 0xCC, CHR 0xCD, CHR 0xCE, CHR 0xCF,
      CHR 0xD0, CHR 0xD1, CHR 0xD2, CHR 0xD3, CHR 0xD4, CHR 0xD5, CHR 0xD6, CHR 0xD8,
      CHR 0xD9, CHR 0xDA, CHR 0xDB, CHR 0xDC, CHR 0xDD, CHR 0xDE]"

text \<open>
  The upper-case partner of one code unit where it is one code unit below 256, and the
  lower-case partner. The first is also the canonical form that a regular expression with
  the \<^verbatim>\<open>i\<close> flag compares: U+00DF is its own canonical form, and the canonical forms
  of U+00FF and U+00B5 lie above 255 and equal no ASCII character, which is all that a
  comparison with the ASCII patterns of the program asks.
\<close>

definition toUpperChar :: "char \<Rightarrow> char" where
  "toUpperChar c =
     (case map_of (zip (lowerLetters @ latin1LowerLetters) (upperLetters @ latin1UpperLetters)) c of
        Some u \<Rightarrow> u
      | None \<Rightarrow> c)"

definition toLowerChar :: "char \<Rightarrow> char" where
  "toLowerChar c =
     (case map_of (zip (upperLetters @ latin1UpperLetters) (lowerLetters @ latin1LowerLetters)) c of
        Some l \<Rightarrow> l
      | None \<Rightarrow> c)"

text \<open>
  \<^verbatim>\<open>s.toUpperCase()\<close> and \<^verbatim>\<open>s.toLowerCase()\<close>. The sharp s U+00DF becomes the two
  letters SS.
\<close>

definition upperOf :: "char \<Rightarrow> string" where
  "upperOf c = (if c = CHR 0xDF then ''SS'' else [toUpperChar c])"

definition toUpperCase :: "string \<Rightarrow> string" where
  "toUpperCase s = concat (map upperOf s)"

definition toLowerCase :: "string \<Rightarrow> string" where
  "toLowerCase s = map toLowerChar s"

text \<open>\<^verbatim>\<open>s.trim()\<close>: white space is removed at both ends.\<close>

definition trim :: "string \<Rightarrow> string" where
  "trim s = rev (dropWhile isWhiteSpace (rev (dropWhile isWhiteSpace s)))"

text \<open>
  A literal of a regular expression with the \<^verbatim>\<open>i\<close> flag matches at the start of
  \<open>s\<close> when the two agree, character by character, in their canonical forms.
\<close>

definition startsWithCI :: "string \<Rightarrow> string \<Rightarrow> bool" where
  "startsWithCI lit s = (map toUpperChar (take (length lit) s) = map toUpperChar lit)"


section \<open>The priority normaliser\<close>

text \<open>\<^verbatim>\<open>priority.replace(/[\d\-]/g, '')\<close>: a scan that drops each matching character.\<close>

fun removeDigitsDashes :: "string \<Rightarrow> string" where
  "removeDigitsDashes [] = []"
| "removeDigitsDashes (c # cs) =
     (if isDigit c \<or> c = CHR ''-'' then removeDigitsDashes cs else c # removeDigitsDashes cs)"

text \<open>
  \<^verbatim>\<open>processed.replace(/moderate/gi, 'Medium')\<close>: a scan from the left; where the
  literal matches, the replacement is written and the scan goes on after the match.
\<close>

fun replaceModerate :: "string \<Rightarrow> string" where
  "replaceModerate [] = []"
| "replaceModerate (c # cs) =
     (if startsWithCI ''moderate'' (c # cs) then ''Medium'' @ replaceModerate (drop 7 cs)
      else c # replaceModerate cs)"

text \<open>
  \<^verbatim>\<open>processPriority\<close>. The guard \<^verbatim>\<open>!priority\<close> holds of the empty string;
  \<^verbatim>\<open>charAt(0)\<close> is \<open>take 1\<close> and \<^verbatim>\<open>slice(1)\<close> is \<open>drop 1\<close>.
\<close>

definition processPriority :: "string \<Rightarrow> string" where
  "processPriority priority =
     (if priority = [] then []
      else
        let processed = trim (removeDigitsDashes priority);
            processed = replaceModerate processed
        in if length processed > 0
           then toUpperCase (take 1 processed) @ toLowerCase (drop 1 processed)
           else processed)"




section \<open>The job-name extractor\<close>

text \<open>
  The character class \<^verbatim>\<open>[A-Z0-9_]\<close>, and the same class under the \<^verbatim>\<open>i\<close> flag,
  where a character is canonicalised before it is looked up.
\<close>

definition jobNameClass :: "char \<Rightarrow> bool" where
  "jobNameClass c = (c \<in> set upperLetters \<or> isDigit c \<or> c = CHR ''_'')"

definition jobNameClassCI :: "char \<Rightarrow> bool" where
  "jobNameClassCI c = jobNameClass (toUpperChar c)"

text \<open>
  One attempt of \<^verbatim>\<open>/:\s*OMS_([A-Z0-9_]+)/gi\<close> at the start of \<open>s\<close>: the captured
  group and the text after the match, or \<open>None\<close>. Both quantifiers are greedy, and giving
  characters back never helps: white space is not the letter O, and nothing follows the
  group.
\<close>

definition matchPatternAt :: "string \<Rightarrow> (string \<times> string) option" where
  "matchPatternAt s =
     (case s of
        [] \<Rightarrow> None
      | c # r \<Rightarrow>
          if c = CHR '':'' then
            let r1 = dropWhile isWhiteSpace r in
            if startsWithCI ''OMS_'' r1 then
              let r2 = drop 4 r1; g = takeWhile jobNameClassCI r2 in
              if g = [] then None else Some (g, dropWhile jobNameClassCI r2)
            else None
          else None)"

text \<open>
  \<^verbatim>\<open>Array.from(shortDescription.matchAll(pattern))\<close>, as the list of captured groups
  \<^verbatim>\<open>match[1]\<close>: after a match the search goes on where the match ended, after a
  failed attempt one character further.
\<close>

function matchAll :: "string \<Rightarrow> string list" where
  "matchAll s =
     (if s = [] then []
      else case matchPatternAt s of
             Some (g, rest) \<Rightarrow> g # matchAll rest
           | None \<Rightarrow> matchAll (tl s))"
  by pat_completeness auto
termination
proof (relation "measure length")
  show "wf (measure length)" by simp
next
  fix s :: string and x2 :: "string \<times> string" and g rest
  assume ne: "s \<noteq> []" and m: "matchPatternAt s = Some x2" and x2: "(g, rest) = x2"
  from ne obtain c r where s: "s = c # r" by (cases s) auto
  from m x2 s have "rest = dropWhile jobNameClassCI (drop 4 (dropWhile isWhiteSpace r))"
    by (auto simp: matchPatternAt_def Let_def split: if_splits)
  moreover have "length (dropWhile jobNameClassCI (drop 4 (dropWhile isWhiteSpace r))) \<le> length r"
  proof -
    have "length (dropWhile jobNameClassCI (drop 4 (dropWhile isWhiteSpace r)))
          \<le> length (drop 4 (dropWhile isWhiteSpace r))"
      by (rule length_dropWhile_le)
    also have "\<dots> \<le> length (dropWhile isWhiteSpace r)"
      by simp
    also have "\<dots> \<le> length r"
      by (rule length_dropWhile_le)
    finally show ?thesis .
  qed
  ultimately show "(rest, s) \<in> measure length"
    using s by simp
next
  fix s :: string
  assume "s \<noteq> []"
  then show "(tl s, s) \<in> measure length"
    by (cases s) auto
qed

declare matchAll.simps [simp del]

text \<open>The loop of lines 57 to 66: the longest fully upper-case text, the first of them.\<close>

fun bestUpperMatch :: "string list \<Rightarrow> string option \<Rightarrow> string option" where
  "bestUpperMatch [] bestMatch = bestMatch"
| "bestUpperMatch (m # ms) bestMatch =
     (let matchedText = ''OMS_'' @ m in
      if matchedText = toUpperCase matchedText then
        (case bestMatch of
           None \<Rightarrow> bestUpperMatch ms (Some matchedText)
         | Some b \<Rightarrow>
             if length matchedText > length b then bestUpperMatch ms (Some matchedText)
             else bestUpperMatch ms bestMatch)
      else bestUpperMatch ms bestMatch)"

text \<open>The \<^verbatim>\<open>reduce\<close> of lines 70 to 73, started at the text of the first match \<open>m0\<close>.\<close>

definition longestMatch :: "string \<Rightarrow> string list \<Rightarrow> string" where
  "longestMatch m0 ms =
     foldl (\<lambda>longest m. let matchedText = ''OMS_'' @ m in
                          if length matchedText > length longest then matchedText else longest)
       (''OMS_'' @ m0) ms"

text \<open>Lines 55 to 74, for a non-empty list of matches (\<open>[]\<close> is returned before).\<close>

definition chooseBestMatch :: "string list \<Rightarrow> string" where
  "chooseBestMatch ms =
     (case bestUpperMatch ms None of
        Some b \<Rightarrow> b
      | None \<Rightarrow> (case ms of [] \<Rightarrow> [] | m0 # _ \<Rightarrow> longestMatch m0 ms))"

definition daysOfWeek :: "string list" where
  "daysOfWeek = [''Sunday'', ''Monday'', ''Tuesday'', ''Wednesday'', ''Thursday'', ''Friday'',
     ''Saturday'']"

definition months :: "string list" where
  "months = [''January'', ''February'', ''March'', ''April'', ''May'', ''June'', ''July'',
     ''August'', ''September'', ''October'', ''November'', ''December'']"

definition dateKeywords :: "string list" where
  "dateKeywords = daysOfWeek @ months"

text \<open>
  \<^verbatim>\<open>s.match(re)\<close> for a regular expression without the \<^verbatim>\<open>g\<close> flag that consumes
  at least one character: the index of the leftmost position where the pattern matches.
\<close>

fun regexIndex :: "(string \<Rightarrow> bool) \<Rightarrow> string \<Rightarrow> nat option" where
  "regexIndex p [] = None"
| "regexIndex p (c # cs) = (if p (c # cs) then Some 0 else map_option Suc (regexIndex p cs))"

definition isSeparator :: "char \<Rightarrow> bool" where
  "isSeparator c = (c = CHR ''_'' \<or> c = CHR ''-'')"

text \<open>\<^verbatim>\<open>(_|-)(?:keyword)\<close> with the \<^verbatim>\<open>i\<close> flag, and \<^verbatim>\<open>(_|-)(\d{4})\<close>.\<close>

definition datePatternAt :: "string \<Rightarrow> string \<Rightarrow> bool" where
  "datePatternAt keyword s =
     (case s of [] \<Rightarrow> False | c # r \<Rightarrow> isSeparator c \<and> startsWithCI keyword r)"

definition yearPatternAt :: "string \<Rightarrow> bool" where
  "yearPatternAt s =
     (case s of [] \<Rightarrow> False
      | c # r \<Rightarrow> isSeparator c \<and> length (take 4 r) = 4 \<and> list_all isDigit (take 4 r))"

definition dateMatch :: "string \<Rightarrow> string \<Rightarrow> nat option" where
  "dateMatch keyword bestMatch = regexIndex (datePatternAt keyword) bestMatch"

definition yearMatch :: "string \<Rightarrow> nat option" where
  "yearMatch bestMatch = regexIndex yearPatternAt bestMatch"

text \<open>
  The loop of lines 83 to 101 over the keywords that are left; \<^verbatim>\<open>substring(0, i)\<close>
  is \<open>take i\<close>, and \<^verbatim>\<open>break\<close> ends the recursion.
\<close>

fun truncateLoop :: "string list \<Rightarrow> string \<Rightarrow> string" where
  "truncateLoop [] bestMatch = bestMatch"
| "truncateLoop (keyword # keywords) bestMatch =
     (case dateMatch keyword bestMatch of
        Some i \<Rightarrow> take i bestMatch
      | None \<Rightarrow>
          (case yearMatch bestMatch of
             Some i \<Rightarrow> take i bestMatch
           | None \<Rightarrow> truncateLoop keywords bestMatch))"

definition truncateDate :: "string \<Rightarrow> string" where
  "truncateDate bestMatch = truncateLoop dateKeywords bestMatch"

definition extractJobName :: "string \<Rightarrow> string" where
  "extractJobName shortDescription =
     (if shortDescription = [] then []
      else
        let matches = matchAll shortDescription in
        if length matches = 0 then []
        else toUpperCase (truncateDate (chooseBestMatch matches)))"




definition occurrenceText :: "string \<Rightarrow> string" where
  "occurrenceText g = ''OMS_'' @ g"


definition fullyUpper :: "string \<Rightarrow> bool" where
  "fullyUpper t = (t = toUpperCase t)"

definition firstLongest :: "string list \<Rightarrow> string \<Rightarrow> bool" where
  "firstLongest xs c =
     (\<exists>before after. xs = before @ c # after
        \<and> (\<forall>b \<in> set before. length b < length c)
        \<and> (\<forall>a \<in> set after. length a \<le> length c))"


section \<open>The table parser\<close>

text \<open>The keys of \<^verbatim>\<open>INPUT_COLUMNS\<close>, and its entries in the order of \<^verbatim>\<open>Object.entries\<close>.\<close>

datatype field = NUMBER | CALLER | SHORT_DESCRIPTION | PRIORITY | CONFIGURATION_ITEM | STATE
  | ASSIGNMENT_GROUP | ASSIGNED_TO | SLA_DUE | OPENED

definition INPUT_COLUMNS :: "(field \<times> string) list" where
  "INPUT_COLUMNS =
     [(NUMBER, ''Number''), (CALLER, ''Caller''), (SHORT_DESCRIPTION, ''Short description''),
      (PRIORITY, ''Priority''), (CONFIGURATION_ITEM, ''Configuration item''), (STATE, ''State''),
      (ASSIGNMENT_GROUP, ''Assignment group''), (ASSIGNED_TO, ''Assigned to''),
      (SLA_DUE, ''SLA due''), (OPENED, ''Opened'')]"

definition OUTPUT_COLUMNS :: "string list" where
  "OUTPUT_COLUMNS =
     [''Number'', ''State'', ''Priority'', ''Assignment group'', ''filled by'', ''Job name'']"

text \<open>The row object that \<^verbatim>\<open>parsePastedData\<close> builds.\<close>

record RawRow =
  number :: string
  state :: string
  priority :: string
  assignmentGroup :: string
  shortDescription :: string

text \<open>
  The results of \<^verbatim>\<open>parsePastedData\<close> that are not a list of rows: \<^verbatim>\<open>null\<close> without
  a message, and \<^verbatim>\<open>null\<close> after the notification that the required columns could not
  be found.
\<close>

datatype parseError = NoData | RequiredColumnsMissing

text \<open>
  \<^verbatim>\<open>s.split(d)\<close> for a separator of one character (\<^verbatim>\<open>'\n'\<close>, \<^verbatim>\<open>/\t/\<close>): the
  pieces between the separators. A character that is not the separator goes in front of
  the first piece of the rest; the rest always has a first piece, so the last case is
  never taken.
\<close>

primrec splitOn :: "char \<Rightarrow> string \<Rightarrow> string list" where
  "splitOn d [] = [[]]"
| "splitOn d (c # cs) =
     (if c = d then [] # splitOn d cs
      else (case splitOn d cs of
              piece # pieces \<Rightarrow> (c # piece) # pieces
            | [] \<Rightarrow> [[c]]))"

text \<open>\<^verbatim>\<open>text.trim().split('\n').filter(line => line.trim())\<close>.\<close>

definition textLines :: "string \<Rightarrow> string list" where
  "textLines text = filter (\<lambda>line. trim line \<noteq> []) (splitOn NL (trim text))"

text \<open>
  The loop over \<^verbatim>\<open>Object.entries(INPUT_COLUMNS)\<close> for one header: the key of the first
  entry whose name equals the header, both lower-cased.
\<close>

definition matchColumn :: "string \<Rightarrow> field option" where
  "matchColumn header =
     (let normalizedHeader = trim header in
      map_option fst
        (find (\<lambda>(key, value). toLowerCase normalizedHeader = toLowerCase value) INPUT_COLUMNS))"

text \<open>
  \<^verbatim>\<open>headers.forEach((header, index) => ...)\<close>: the object \<^verbatim>\<open>columnIndices\<close> is a map
  from keys to indices, an absent property is \<open>None\<close>, and a later header overwrites the
  entry of an earlier one.
\<close>

fun findColumnIndices :: "string list \<Rightarrow> nat \<Rightarrow> (field \<rightharpoonup> nat) \<Rightarrow> (field \<rightharpoonup> nat)" where
  "findColumnIndices [] index columnIndices = columnIndices"
| "findColumnIndices (header # headers) index columnIndices =
     findColumnIndices headers (Suc index)
       (case matchColumn header of
          Some key \<Rightarrow> columnIndices(key \<mapsto> index)
        | None \<Rightarrow> columnIndices)"

definition headerIndices :: "string \<Rightarrow> (field \<rightharpoonup> nat)" where
  "headerIndices headerLine =
     (let headers = map trim (splitOn TAB headerLine)
      in findColumnIndices headers 0 Map.empty)"

text \<open>
  \<^verbatim>\<open>!columnIndices.KEY\<close>: true of an absent property (\<^verbatim>\<open>undefined\<close>) and of the
  index \<^verbatim>\<open>0\<close>, the two falsy values an entry can have.
\<close>

definition notIndex :: "nat option \<Rightarrow> bool" where
  "notIndex entry = (case entry of None \<Rightarrow> True | Some i \<Rightarrow> i = 0)"

text \<open>
  \<^verbatim>\<open>columnIndices.KEY !== undefined ? values[columnIndices.KEY] || '' : ''\<close>: reading
  beyond the end of \<^verbatim>\<open>values\<close> gives \<^verbatim>\<open>undefined\<close>, and so the empty string.
\<close>

definition cellAt :: "string list \<Rightarrow> nat option \<Rightarrow> string" where
  "cellAt values entry =
     (case entry of
        None \<Rightarrow> []
      | Some i \<Rightarrow> if i < length values then values ! i else [])"

definition parseRow :: "(field \<rightharpoonup> nat) \<Rightarrow> string \<Rightarrow> RawRow" where
  "parseRow columnIndices line =
     (let values = map trim (splitOn TAB line) in
      \<lparr> number = cellAt values (columnIndices NUMBER),
        state = cellAt values (columnIndices STATE),
        priority = cellAt values (columnIndices PRIORITY),
        assignmentGroup = cellAt values (columnIndices ASSIGNMENT_GROUP),
        shortDescription = cellAt values (columnIndices SHORT_DESCRIPTION) \<rparr>)"

text \<open>The loop of lines 171 to 186 over the lines after the header; \<open>data\<close> is the array.\<close>

fun parseRows :: "(field \<rightharpoonup> nat) \<Rightarrow> string list \<Rightarrow> RawRow list \<Rightarrow> RawRow list" where
  "parseRows columnIndices [] data = data"
| "parseRows columnIndices (line # lines) data =
     (let row = parseRow columnIndices line in
      if number row \<noteq> [] \<or> shortDescription row \<noteq> []
      then parseRows columnIndices lines (data @ [row])
      else parseRows columnIndices lines data)"

definition parsePastedData :: "string \<Rightarrow> parseError + RawRow list" where
  "parsePastedData text =
     (if text = [] \<or> trim text = [] then Inl NoData
      else
        case textLines text of
          [] \<Rightarrow> Inl NoData
        | headerLine # dataLines \<Rightarrow>
            let columnIndices = headerIndices headerLine in
            if notIndex (columnIndices NUMBER) \<and> notIndex (columnIndices SHORT_DESCRIPTION)
            then Inl RequiredColumnsMissing
            else Inr (parseRows columnIndices dataLines []))"


section \<open>The row projector and the serialiser\<close>

text \<open>
  The object that \<^verbatim>\<open>processData\<close> builds; its first four fields carry the prefix
  \<open>out\<close> because a HOL record cannot share field names with \<open>RawRow\<close>.
\<close>

record OutputRow =
  outNumber :: string
  outState :: string
  outPriority :: string
  outAssignmentGroup :: string
  filledBy :: string
  jobName :: string

definition processData :: "RawRow list \<Rightarrow> string \<Rightarrow> OutputRow list" where
  "processData rawData filledByText =
     map (\<lambda>row.
            let jobNameText = extractJobName (shortDescription row);
                processedPriority = processPriority (priority row)
            in \<lparr> outNumber = number row,
                 outState = state row,
                 outPriority = processedPriority,
                 outAssignmentGroup = assignmentGroup row,
                 filledBy = filledByText,
                 jobName = jobNameText \<rparr>)
       rawData"

text \<open>\<^verbatim>\<open>values.join(sep)\<close>.\<close>

fun join :: "string \<Rightarrow> string list \<Rightarrow> string" where
  "join sep [] = []"
| "join sep [x] = x"
| "join sep (x # y # ys) = x @ sep @ join sep (y # ys)"

definition rowValues :: "OutputRow \<Rightarrow> string list" where
  "rowValues row =
     [outNumber row, outState row, outPriority row, outAssignmentGroup row, filledBy row,
      jobName row]"

text \<open>\<^verbatim>\<open>generateTabSeparatedOutput\<close>; the \<^verbatim>\<open>forEach\<close> appends to \<open>output\<close>.\<close>

definition generateTabSeparatedOutput :: "OutputRow list \<Rightarrow> string" where
  "generateTabSeparatedOutput processedData =
     (if length processedData = 0 then []
      else
        foldl (\<lambda>output row. output @ join [TAB] (rowValues row) @ [NL])
          (join [TAB] OUTPUT_COLUMNS @ [NL]) processedData)"


section \<open>Notions of the specification about the parser and the serialiser\<close>

text \<open>
  A string without leading or trailing white space; a string of white space only; what
  \<^verbatim>\<open>trim()\<close> does at the right end alone; the rows that the parser keeps.
\<close>

definition noOuterSpace :: "string \<Rightarrow> bool" where
  "noOuterSpace s = (case s of [] \<Rightarrow> True | c # _ \<Rightarrow> \<not> isWhiteSpace c \<and> \<not> isWhiteSpace (last s))"

definition blank :: "string \<Rightarrow> bool" where
  "blank s = list_all isWhiteSpace s"

definition rtrim :: "string \<Rightarrow> string" where
  "rtrim s = rev (dropWhile isWhiteSpace (rev s))"

definition keepRow :: "RawRow \<Rightarrow> bool" where
  "keepRow row = (number row \<noteq> [] \<or> shortDescription row \<noteq> [])"




text \<open>
  The pattern of the job-name extractor in the words of the specification: a colon, white
  space or none, the letters OMS and an underscore in any letter case, then the captured
  word characters \<open>g\<close>, as many as there are, and the remaining text.
\<close>

definition isWordChar :: "char \<Rightarrow> bool" where
  "isWordChar c =
     (c \<in> set ''ABCDEFGHIJKLMNOPQRSTUVWXYZabcdefghijklmnopqrstuvwxyz0123456789_'')"

definition patternAt :: "string \<Rightarrow> string \<Rightarrow> string \<Rightarrow> bool" where
  "patternAt s g rest =
     (\<exists>ws oms. s = CHR '':'' # ws @ oms @ g @ rest \<and> blank ws
        \<and> length oms = 4 \<and> map toUpperChar oms = ''OMS_''
        \<and> g \<noteq> [] \<and> list_all isWordChar g \<and> (rest = [] \<or> \<not> isWordChar (hd rest)))"

text \<open>
  The header line and a data line of the output contract: the six column names, and the
  six fields of a row, separated by tabs.
\<close>

definition outputHeaderLine :: string where
  "outputHeaderLine =
     ''Number'' @ [TAB] @ ''State'' @ [TAB] @ ''Priority'' @ [TAB] @ ''Assignment group'' @ [TAB]
       @ ''filled by'' @ [TAB] @ ''Job name''"

definition outputLine :: "OutputRow \<Rightarrow> string" where
  "outputLine row =
     outNumber row @ [TAB] @ outState row @ [TAB] @ outPriority row @ [TAB]
       @ outAssignmentGroup row @ [TAB] @ filledBy row @ [TAB] @ jobName row"

text \<open>
  For the round trip: a field that a tab-separated line carries unchanged (no tab, no
  line break, no white space at its ends), a row whose four parsed fields are such and
  whose other two fields hold no line break, and the row that re-parsing is to recover.
\<close>

definition cleanField :: "string \<Rightarrow> bool" where
  "cleanField s = (TAB \<notin> set s \<and> NL \<notin> set s \<and> trim s = s)"

definition cleanRow :: "OutputRow \<Rightarrow> bool" where
  "cleanRow row =
     (cleanField (outNumber row) \<and> cleanField (outState row) \<and> cleanField (outPriority row)
      \<and> cleanField (outAssignmentGroup row) \<and> NL \<notin> set (filledBy row) \<and> NL \<notin> set (jobName row))"

definition toRawRow :: "OutputRow \<Rightarrow> RawRow" where
  "toRawRow row =
     \<lparr> number = outNumber row, state = outState row, priority = outPriority row,
       assignmentGroup = outAssignmentGroup row, shortDescription = [] \<rparr>"


section \<open>Properties of the job-name extractor\<close>

lemma regexIndex_SomeD:
  "regexIndex p s = Some i \<Longrightarrow> i < length s \<and> p (drop i s) \<and> (\<forall>j < i. \<not> p (drop j s))"
proof (induction s arbitrary: i)
  case Nil
  then show ?case by simp
next
  case (Cons c cs)
  show ?case
  proof (cases "p (c # cs)")
    case True
    with Cons.prems show ?thesis by simp
  next
    case False
    with Cons.prems obtain k where k: "regexIndex p cs = Some k" and i: "i = Suc k"
      by auto
    from Cons.IH [OF k] have ih: "k < length cs" "p (drop k cs)" "\<forall>j < k. \<not> p (drop j cs)"
      by simp_all
    have "\<not> p (drop j (c # cs))" if "j < i" for j
    proof (cases j)
      case 0
      with False show ?thesis by simp
    next
      case (Suc j')
      with that i ih(3) show ?thesis by simp
    qed
    with ih i show ?thesis by simp
  qed
qed

lemma longer_step_firstLongest:
  "firstLongest (x # xs) (foldl (\<lambda>b t. if length t > length b then t else b) x xs)"
proof (induction xs rule: rev_induct)
  case Nil
  have "[x] = [] @ x # []" by simp
  then show ?case unfolding firstLongest_def by fastforce
next
  case (snoc y xs)
  let ?step = "\<lambda>b t. if length t > length (b::string) then t else b"
  let ?b = "foldl ?step x xs"
  from snoc obtain before after where
    split: "x # xs = before @ ?b # after"
    and before: "\<forall>p \<in> set before. length p < length ?b"
    and after: "\<forall>a \<in> set after. length a \<le> length ?b"
    unfolding firstLongest_def by blast
  show ?case
  proof (cases "length y > length ?b")
    case True
    have "x # xs @ [y] = (x # xs) @ y # []" by simp
    moreover have "\<forall>p \<in> set (x # xs). length p < length y"
    proof
      fix p assume "p \<in> set (x # xs)"
      then have "p \<in> set before \<or> p = ?b \<or> p \<in> set after"
        unfolding split by auto
      with before after True show "length p < length y" by fastforce
    qed
    ultimately have "firstLongest (x # xs @ [y]) y"
      unfolding firstLongest_def by (metis empty_iff list.set(1))
    with True show ?thesis by simp
  next
    case False
    have "x # xs @ [y] = before @ ?b # (after @ [y])"
      using split by simp
    moreover have "\<forall>a \<in> set (after @ [y]). length a \<le> length ?b"
      using after False by auto
    ultimately have "firstLongest (x # xs @ [y]) ?b"
      unfolding firstLongest_def using before by blast
    with False show ?thesis by simp
  qed
qed

lemma bestUpperMatch_Cons:
  "bestUpperMatch (m # ms) best =
     (if fullyUpper (occurrenceText m) then
        (case best of
           None \<Rightarrow> bestUpperMatch ms (Some (occurrenceText m))
         | Some b \<Rightarrow>
             if length (occurrenceText m) > length b then bestUpperMatch ms (Some (occurrenceText m))
             else bestUpperMatch ms best)
      else bestUpperMatch ms best)"
  by (cases best) (simp_all add: fullyUpper_def occurrenceText_def Let_def)

lemma bestUpperMatch_Some:
  "bestUpperMatch ms (Some b) =
     Some (foldl (\<lambda>b t. if length t > length b then t else b) b
             (filter fullyUpper (map occurrenceText ms)))"
  by (induction ms arbitrary: b) (simp_all add: bestUpperMatch_Cons del: bestUpperMatch.simps(2))

lemma bestUpperMatch_None:
  "bestUpperMatch ms None =
     (case filter fullyUpper (map occurrenceText ms) of
        [] \<Rightarrow> None
      | u # us \<Rightarrow> Some (foldl (\<lambda>b t. if length t > length b then t else b) u us))"
  by (induction ms)
    (simp_all add: bestUpperMatch_Cons bestUpperMatch_Some del: bestUpperMatch.simps(2))

lemma longestMatch_foldl:
  "longestMatch m0 (m0 # ms) =
     foldl (\<lambda>b t. if length t > length b then t else b) (occurrenceText m0)
       (map occurrenceText ms)"
proof -
  have "longestMatch m0 (m0 # ms) =
      foldl (\<lambda>longest m. if length (occurrenceText m) > length longest then occurrenceText m
                           else longest) (occurrenceText m0) (m0 # ms)"
    unfolding longestMatch_def occurrenceText_def Let_def by (rule refl)
  also have "\<dots> = foldl (\<lambda>longest m. if length (occurrenceText m) > length longest
                                       then occurrenceText m else longest) (occurrenceText m0) ms"
    by simp
  also have "\<dots> = foldl (\<lambda>b t. if length t > length b then t else b) (occurrenceText m0)
       (map occurrenceText ms)"
    by (simp add: foldl_map)
  finally show ?thesis .
qed

lemma chooseBestMatch_upper:
  assumes "filter fullyUpper (map occurrenceText ms) \<noteq> []"
  shows "firstLongest (filter fullyUpper (map occurrenceText ms)) (chooseBestMatch ms)"
proof -
  from assms obtain u us where us: "filter fullyUpper (map occurrenceText ms) = u # us"
    by (cases "filter fullyUpper (map occurrenceText ms)") auto
  then have "chooseBestMatch ms = foldl (\<lambda>b t. if length t > length b then t else b) u us"
    by (simp add: chooseBestMatch_def bestUpperMatch_None)
  with us show ?thesis
    by (simp add: longer_step_firstLongest)
qed

lemma chooseBestMatch_fallback:
  assumes "filter fullyUpper (map occurrenceText ms) = []" and "ms \<noteq> []"
  shows "firstLongest (map occurrenceText ms) (chooseBestMatch ms)"
proof -
  from assms(2) obtain m0 rest where ms: "ms = m0 # rest"
    by (cases ms) auto
  from assms(1) have "bestUpperMatch ms None = None"
    by (simp add: bestUpperMatch_None)
  then have "chooseBestMatch ms = longestMatch m0 (m0 # rest)"
    by (simp add: chooseBestMatch_def ms)
  also have "\<dots> = foldl (\<lambda>b t. if length t > length b then t else b) (occurrenceText m0)
       (map occurrenceText rest)"
    by (rule longestMatch_foldl)
  finally show ?thesis
    using longer_step_firstLongest [of "occurrenceText m0" "map occurrenceText rest"]
    by (simp add: ms)
qed

lemma firstLongest_mem: "firstLongest xs c \<Longrightarrow> c \<in> set xs"
  unfolding firstLongest_def by auto

lemma chooseBestMatch_mem:
  assumes "ms \<noteq> []"
  shows "chooseBestMatch ms \<in> occurrenceText ` set ms"
proof (cases "filter fullyUpper (map occurrenceText ms) = []")
  case True
  from firstLongest_mem [OF chooseBestMatch_fallback [OF True assms]] show ?thesis by simp
next
  case False
  from firstLongest_mem [OF chooseBestMatch_upper [OF False]] show ?thesis by auto
qed






lemma jobNameClassCI_word: "jobNameClassCI c = isWordChar c"
proof -
  have up: "toUpperChar c \<in> set upperLetters \<longleftrightarrow> c \<in> set upperLetters \<or> c \<in> set lowerLetters"
    unfolding toUpperChar_def lowerLetters_def upperLetters_def latin1LowerLetters_def
      latin1UpperLetters_def
    by (simp split: if_splits)
  have dg: "isDigit (toUpperChar c) \<longleftrightarrow> isDigit c"
    unfolding toUpperChar_def lowerLetters_def upperLetters_def latin1LowerLetters_def
      latin1UpperLetters_def isDigit_def
    by (simp split: if_splits)
  have us: "toUpperChar c = CHR ''_'' \<longleftrightarrow> c = CHR ''_''"
    unfolding toUpperChar_def lowerLetters_def upperLetters_def latin1LowerLetters_def
      latin1UpperLetters_def
    by (simp split: if_splits)
  show ?thesis
    unfolding jobNameClassCI_def jobNameClass_def up dg us
    by (auto simp: isWordChar_def upperLetters_def lowerLetters_def isDigit_def)
qed

lemma whiteSpace_not_O:
  "isWhiteSpace c \<Longrightarrow> toUpperChar c \<noteq> CHR ''O''"
  unfolding toUpperChar_def lowerLetters_def upperLetters_def latin1LowerLetters_def
    latin1UpperLetters_def isWhiteSpace_def
  by auto

lemma canonical_OMS: "map toUpperChar ''OMS_'' = ''OMS_''"
  by (simp add: toUpperChar_def lowerLetters_def upperLetters_def
      latin1LowerLetters_def latin1UpperLetters_def)

lemma matchPatternAt_Cons:
  "matchPatternAt (c # r) =
     (if c = CHR '':'' \<and> startsWithCI ''OMS_'' (dropWhile isWhiteSpace r)
         \<and> takeWhile jobNameClassCI (drop 4 (dropWhile isWhiteSpace r)) \<noteq> []
      then Some (takeWhile jobNameClassCI (drop 4 (dropWhile isWhiteSpace r)),
                 dropWhile jobNameClassCI (drop 4 (dropWhile isWhiteSpace r)))
      else None)"
  by (simp add: matchPatternAt_def Let_def)

lemma matchPatternAt_SomeD:
  assumes "matchPatternAt s = Some (g, rest)"
  shows "patternAt s g rest"
proof -
  from assms obtain c r where s0: "s = c # r"
    by (cases s) (simp_all add: matchPatternAt_def)
  let ?r1 = "dropWhile isWhiteSpace r"
  let ?r2 = "drop 4 ?r1"
  from assms have cond: "c = CHR '':'' \<and> startsWithCI ''OMS_'' ?r1
      \<and> takeWhile jobNameClassCI ?r2 \<noteq> []"
    unfolding s0 matchPatternAt_Cons by (rule_tac ccontr) simp
  with assms have gr: "g = takeWhile jobNameClassCI ?r2 \<and> rest = dropWhile jobNameClassCI ?r2"
    unfolding s0 matchPatternAt_Cons by simp
  from cond s0 have s: "s = CHR '':'' # r" by simp
  from cond have sw: "startsWithCI ''OMS_'' ?r1" by simp
  from gr have g: "g = takeWhile jobNameClassCI ?r2" and rest: "rest = dropWhile jobNameClassCI ?r2"
    by simp_all
  from cond g have ne: "g \<noteq> []" by simp
  have l4: "length ''OMS_'' = 4" by simp
  from sw have o': "map toUpperChar (take 4 ?r1) = map toUpperChar ''OMS_''"
    unfolding startsWithCI_def l4 .
  from arg_cong [OF this, of length] have len: "length (take 4 ?r1) = 4"
    by (simp del: length_take)
  from o' have o: "map toUpperChar (take 4 ?r1) = ''OMS_''"
    by (simp only: canonical_OMS)
  have e: "s = CHR '':'' # takeWhile isWhiteSpace r @ take 4 ?r1 @ g @ rest"
    unfolding s g rest by simp
  have bl: "blank (takeWhile isWhiteSpace r)"
    by (simp add: blank_def list_all_iff) (metis set_takeWhileD)
  have wg: "list_all isWordChar g"
    unfolding g by (simp add: list_all_iff jobNameClassCI_word [symmetric]) (metis set_takeWhileD)
  have rs: "rest = [] \<or> \<not> isWordChar (hd rest)"
    unfolding rest jobNameClassCI_word [symmetric] using hd_dropWhile by blast
  show ?thesis
    unfolding patternAt_def
    by (rule exI [of _ "takeWhile isWhiteSpace r"], rule exI [of _ "take 4 ?r1"])
      (intro conjI e bl len o ne wg rs)
qed

lemma patternAt_matchPatternAt:
  assumes "patternAt s g rest"
  shows "matchPatternAt s = Some (g, rest)"
proof -
  from assms obtain ws where "\<exists>oms. s = CHR '':'' # ws @ oms @ g @ rest \<and> blank ws
        \<and> length oms = 4 \<and> map toUpperChar oms = ''OMS_''
        \<and> g \<noteq> [] \<and> list_all isWordChar g \<and> (rest = [] \<or> \<not> isWordChar (hd rest))"
    unfolding patternAt_def ..
  then obtain oms where h: "s = CHR '':'' # ws @ oms @ g @ rest \<and> blank ws
        \<and> length oms = 4 \<and> map toUpperChar oms = ''OMS_''
        \<and> g \<noteq> [] \<and> list_all isWordChar g \<and> (rest = [] \<or> \<not> isWordChar (hd rest))" ..
  from h have s: "s = CHR '':'' # ws @ oms @ g @ rest" by (rule conjunct1)
  from h have ws: "blank ws" by (elim conjE)
  from h have len: "length oms = 4" by (elim conjE)
  from h have o: "map toUpperChar oms = ''OMS_''" by (elim conjE)
  from h have ne: "g \<noteq> []" by (elim conjE)
  from h have g: "list_all isWordChar g" by (elim conjE)
  from h have rest: "rest = [] \<or> \<not> isWordChar (hd rest)" by (elim conjE)
  from len obtain a oms' where oms: "oms = a # oms'"
    by (cases oms) simp_all
  with o have "toUpperChar a = CHR ''O''" by simp
  with whiteSpace_not_O have a: "\<not> isWhiteSpace a" by blast
  from ws have "dropWhile isWhiteSpace (ws @ oms @ g @ rest) = dropWhile isWhiteSpace (oms @ g @ rest)"
    by (simp add: blank_def list_all_iff dropWhile_append)
  with a oms have r1: "dropWhile isWhiteSpace (ws @ oms @ g @ rest) = oms @ g @ rest"
    by simp
  have "take (length ''OMS_'') (oms @ g @ rest) = oms"
    using len by simp
  with o have sw: "startsWithCI ''OMS_'' (oms @ g @ rest)"
    unfolding startsWithCI_def by (simp only: canonical_OMS)
  from len have r2: "drop 4 (oms @ g @ rest) = g @ rest" by simp
  from g have gall: "\<forall>x \<in> set g. jobNameClassCI x"
    by (simp add: list_all_iff jobNameClassCI_word)
  from rest have "takeWhile jobNameClassCI rest = []"
    by (cases rest) (auto simp: jobNameClassCI_word)
  with gall have tw: "takeWhile jobNameClassCI (g @ rest) = g"
    by (simp add: takeWhile_append)
  from rest have "dropWhile jobNameClassCI rest = rest"
    by (cases rest) (auto simp: jobNameClassCI_word)
  with gall have dw: "dropWhile jobNameClassCI (g @ rest) = rest"
    by (simp add: dropWhile_append)
  show ?thesis
    unfolding s matchPatternAt_Cons using ne
    by (simp only: r1 sw r2 tw dw simp_thms if_True)
qed

lemma matchPatternAt_iff: "matchPatternAt s = Some (g, rest) \<longleftrightarrow> patternAt s g rest"
  by (rule iffI) (erule matchPatternAt_SomeD, erule patternAt_matchPatternAt)






text \<open>
  Claim C5. On the description "UAC Job:wf_StormCaster_DEP_OMS_Feed
  Application:OMS_STORM_CASTER_DEP_OMS_FEED_Sunday..." the extractor returns
  "OMS_STORM_CASTER_DEP_OMS_FEED".
\<close>

theorem extractJobName_example:
  "extractJobName
     ''UAC Job:wf_StormCaster_DEP_OMS_Feed Application:OMS_STORM_CASTER_DEP_OMS_FEED_Sunday...''
   = ''OMS_STORM_CASTER_DEP_OMS_FEED''"
  by code_simp

lemma separator_index_ge3:
  assumes "regexIndex p (CHR ''O'' # CHR ''M'' # CHR ''S'' # r) = Some i"
    and "\<And>s. p s \<Longrightarrow> s \<noteq> [] \<and> isSeparator (hd s)"
  shows "3 \<le> i"
proof (rule ccontr)
  assume "\<not> 3 \<le> i"
  then have i: "i = 0 \<or> i = 1 \<or> i = 2" by arith
  from regexIndex_SomeD [OF assms(1)] have "p (drop i (CHR ''O'' # CHR ''M'' # CHR ''S'' # r))"
    by simp
  from assms(2) [OF this] have "isSeparator (hd (drop i (CHR ''O'' # CHR ''M'' # CHR ''S'' # r)))"
    by simp
  with i show False
    by (auto simp: isSeparator_def)
qed

lemma take_keeps_OMS:
  assumes "3 \<le> i"
  shows "\<exists>rest. take i (CHR ''O'' # CHR ''M'' # CHR ''S'' # r) = ''OMS'' @ rest"
proof -
  from assms have "i = Suc (Suc (Suc (i - 3)))" by arith
  then have "take i (CHR ''O'' # CHR ''M'' # CHR ''S'' # r) = ''OMS'' @ take (i - 3) r"
    by (metis append_Cons append_Nil take_Suc_Cons)
  then show ?thesis by blast
qed

lemma truncateLoop_prefix:
  "\<exists>rest. truncateLoop ks (CHR ''O'' # CHR ''M'' # CHR ''S'' # r) = ''OMS'' @ rest"
proof (induction ks)
  case Nil
  show ?case by simp
next
  case (Cons k ks)
  let ?c = "CHR ''O'' # CHR ''M'' # CHR ''S'' # r"
  have date: "s \<noteq> [] \<and> isSeparator (hd s)" if "datePatternAt k s" for s
    using that by (auto simp: datePatternAt_def split: list.splits)
  have year: "s \<noteq> [] \<and> isSeparator (hd s)" if "yearPatternAt s" for s
    using that by (auto simp: yearPatternAt_def split: list.splits)
  show ?case
  proof (cases "dateMatch k ?c")
    case (Some i)
    then have "regexIndex (datePatternAt k) ?c = Some i"
      by (simp only: dateMatch_def)
    from separator_index_ge3 [OF this date] have "3 \<le> i" .
    from take_keeps_OMS [OF this] Some show ?thesis
      by (simp only: truncateLoop.simps option.case)
  next
    case None
    note noDate = this
    show ?thesis
    proof (cases "yearMatch ?c")
      case (Some i)
      then have "regexIndex yearPatternAt ?c = Some i"
        by (simp only: yearMatch_def)
      from separator_index_ge3 [OF this year] have "3 \<le> i" .
      from take_keeps_OMS [OF this] Some noDate show ?thesis
        by (simp only: truncateLoop.simps option.case)
    next
      case None
      with noDate Cons.IH show ?thesis
        by (simp only: truncateLoop.simps option.case)
    qed
  qed
qed

text \<open>
  Claim C9. For every input the extractor returns the empty string or a string of at least
  three characters that begins with "OMS": a separator of the candidate stands at index
  3 or later, so the truncation never cuts into the prefix (it may remove the underscore
  and leave "OMS").
\<close>

theorem jobName_prefix:
  "extractJobName d = [] \<or> (take 3 (extractJobName d) = ''OMS'' \<and> 3 \<le> length (extractJobName d))"
proof (cases "matchAll d = []")
  case True
  then show ?thesis by (simp add: extractJobName_def)
next
  case False
  then have "d \<noteq> []" by (auto simp: matchAll.simps)
  with False have e: "extractJobName d = toUpperCase (truncateDate (chooseBestMatch (matchAll d)))"
    by (simp add: extractJobName_def Let_def)
  from chooseBestMatch_mem [OF False] obtain g where "chooseBestMatch (matchAll d) = ''OMS_'' @ g"
    by (auto simp: occurrenceText_def)
  with truncateLoop_prefix [of dateKeywords "CHR ''_'' # g"] obtain rest where
    "truncateDate (chooseBestMatch (matchAll d)) = ''OMS'' @ rest"
    by (auto simp: truncateDate_def)
  with e have "extractJobName d = toUpperCase (''OMS'' @ rest)" by simp
  also have "\<dots> = ''OMS'' @ toUpperCase rest"
    by (simp add: toUpperCase_def upperOf_def toUpperChar_def lowerLetters_def upperLetters_def
        latin1LowerLetters_def latin1UpperLetters_def)
  finally show ?thesis by simp
qed

theorem jobName_prefix_witness:
  "extractJobName '':OMS_2024'' = ''OMS'' \<and> extractJobName ''no job here'' = []"
proof -
  have a: "extractJobName '':OMS_2024'' = ''OMS''"
    by code_simp
  have b: "extractJobName ''no job here'' = []"
    by code_simp
  from jobName_prefix [of "'':OMS_2024''"] a b show ?thesis
    by simp
qed


section \<open>Properties of the table parser\<close>

lemma parseRows_filter:
  "parseRows idx ls data =
     data @ filter (\<lambda>row. number row \<noteq> [] \<or> shortDescription row \<noteq> []) (map (parseRow idx) ls)"
  by (induction ls arbitrary: data) (simp_all add: Let_def)

lemma parseRows_keepRow:
  "parseRows idx ls data = data @ filter keepRow (map (parseRow idx) ls)"
  by (induction ls arbitrary: data) (simp_all add: Let_def keepRow_def)

lemma parsePastedData_InrD:
  assumes "parsePastedData text = Inr data"
  shows "textLines text \<noteq> []"
    and "data = parseRows (headerIndices (hd (textLines text))) (tl (textLines text)) []"
  using assms
  by (auto simp: parsePastedData_def Let_def split: if_splits list.splits)

lemma requiredColumnsMissing_iff:
  "parsePastedData text = Inl RequiredColumnsMissing \<longleftrightarrow>
     trim text \<noteq> [] \<and> textLines text \<noteq> []
     \<and> notIndex (headerIndices (hd (textLines text)) NUMBER)
     \<and> notIndex (headerIndices (hd (textLines text)) SHORT_DESCRIPTION)"
  by (auto simp: parsePastedData_def Let_def trim_def split: list.splits)

text \<open>
  Claim C1. The parser signals "required columns missing" if and only if neither the Number
  nor the Short description field was matched in the header; a header that matches one of
  them at any position, column 0 included, is parsed without this error. The program
  tests the entries with \<^verbatim>\<open>!\<close>, which is also true of the index 0: with Number (or
  Short description) in column 0 and the other one absent it signals the error, while the
  same columns in another order are parsed.
\<close>

theorem required_columns_column_zero:
  "headerIndices (''Number'' @ [TAB] @ ''State'') NUMBER = Some 0
   \<and> parsePastedData (''Number'' @ [TAB] @ ''State'' @ [NL] @ ''INC0012345'' @ [TAB] @ ''New'')
       = Inl RequiredColumnsMissing
   \<and> headerIndices (''Short description'' @ [TAB] @ ''State'') SHORT_DESCRIPTION = Some 0
   \<and> parsePastedData (''Short description'' @ [TAB] @ ''State'' @ [NL] @ ''Job:OMS_A'' @ [TAB] @ ''New'')
       = Inl RequiredColumnsMissing
   \<and> parsePastedData (''State'' @ [TAB] @ ''Number'' @ [NL] @ ''New'' @ [TAB] @ ''INC0012345'')
       = Inr [\<lparr>number = ''INC0012345'', state = ''New'', priority = [], assignmentGroup = [],
                shortDescription = []\<rparr>]"
  by code_simp

text \<open>
  Claim C7. For every input that is parsed, a data row is in the output if and only if its
  number field or its shortDescription field is not empty, whatever its other fields hold,
  and the output keeps the order of the input rows.
\<close>

theorem retained_rows:
  assumes "parsePastedData text = Inr data"
  shows "textLines text \<noteq> []
    \<and> data = filter (\<lambda>row. number row \<noteq> [] \<or> shortDescription row \<noteq> [])
                  (map (parseRow (headerIndices (hd (textLines text)))) (tl (textLines text)))"
  using parsePastedData_InrD [OF assms] by (simp add: parseRows_filter)

theorem retained_rows_witness:
  "parsePastedData
     (''Number'' @ [TAB] @ ''Short description'' @ [TAB] @ ''State'' @ [NL]
      @ ''INC1'' @ [TAB] @ [TAB] @ ''New'' @ [NL]
      @ [TAB] @ [TAB] @ ''Open'' @ [NL]
      @ [TAB] @ ''desc'' @ [TAB])
   = Inr [\<lparr>number = ''INC1'', state = ''New'', priority = [], assignmentGroup = [],
            shortDescription = []\<rparr>,
          \<lparr>number = [], state = [], priority = [], assignmentGroup = [],
            shortDescription = ''desc''\<rparr>]
   \<and> filter (\<lambda>row. number row \<noteq> [] \<or> shortDescription row \<noteq> [])
        (map (parseRow (headerIndices (''Number'' @ [TAB] @ ''Short description'' @ [TAB] @ ''State'')))
           [''INC1'' @ [TAB] @ [TAB] @ ''New'', [TAB] @ [TAB] @ ''Open'', [TAB] @ ''desc''])
     = [\<lparr>number = ''INC1'', state = ''New'', priority = [], assignmentGroup = [],
            shortDescription = []\<rparr>,
          \<lparr>number = [], state = [], priority = [], assignmentGroup = [],
            shortDescription = ''desc''\<rparr>]"
proof -
  let ?text = "''Number'' @ [TAB] @ ''Short description'' @ [TAB] @ ''State'' @ [NL]
      @ ''INC1'' @ [TAB] @ [TAB] @ ''New'' @ [NL]
      @ [TAB] @ [TAB] @ ''Open'' @ [NL]
      @ [TAB] @ ''desc'' @ [TAB]"
  let ?data = "[\<lparr>number = ''INC1'', state = ''New'', priority = [], assignmentGroup = [],
            shortDescription = []\<rparr>,
          \<lparr>number = [], state = [], priority = [], assignmentGroup = [],
            shortDescription = ''desc''\<rparr>]"
  have p: "parsePastedData ?text = Inr ?data"
    by code_simp
  have l: "textLines ?text = [''Number'' @ [TAB] @ ''Short description'' @ [TAB] @ ''State'',
      ''INC1'' @ [TAB] @ [TAB] @ ''New'', [TAB] @ [TAB] @ ''Open'', [TAB] @ ''desc'']"
    by code_simp
  from retained_rows [OF p] l p show ?thesis
    by simp
qed

lemma dropWhile_rev_prefix: "xs = rev (dropWhile P (rev xs)) @ rev (takeWhile P (rev xs))"
  by (metis rev_append rev_rev_ident takeWhile_dropWhile_id)

lemma noOuterSpace_trim: "noOuterSpace (trim s)"
proof (cases "trim s")
  case Nil
  then show ?thesis by (simp add: noOuterSpace_def)
next
  case (Cons c cs)
  let ?t = "dropWhile isWhiteSpace s"
  let ?u = "dropWhile isWhiteSpace (rev ?t)"
  from Cons have u: "rev ?u = c # cs" by (simp add: trim_def)
  then have une: "?u \<noteq> []" by auto
  have "\<not> isWhiteSpace (hd ?u)"
    using une hd_dropWhile by blast
  moreover have "hd ?u = last (rev ?u)"
    using une by (simp add: last_rev)
  ultimately have l: "\<not> isWhiteSpace (last (c # cs))"
    using u by simp
  have "?t = rev ?u @ rev (takeWhile isWhiteSpace (rev ?t))"
    by (rule dropWhile_rev_prefix)
  with u have t: "?t = c # (cs @ rev (takeWhile isWhiteSpace (rev ?t)))" by simp
  then have "\<not> isWhiteSpace c"
    by (metis hd_dropWhile list.sel(1) list.distinct(1))
  with l Cons show ?thesis
    by (simp add: noOuterSpace_def)
qed

lemma noOuterSpace_cellAt:
  assumes "\<forall>v \<in> set vs. noOuterSpace v"
  shows "noOuterSpace (cellAt vs e)"
  using assms by (auto simp: cellAt_def noOuterSpace_def split: option.splits)

lemma noOuterSpace_parseRow:
  "noOuterSpace (number (parseRow idx l)) \<and> noOuterSpace (state (parseRow idx l))
   \<and> noOuterSpace (priority (parseRow idx l)) \<and> noOuterSpace (assignmentGroup (parseRow idx l))
   \<and> noOuterSpace (shortDescription (parseRow idx l))"
proof -
  have "\<forall>v \<in> set (map trim (splitOn TAB l)). noOuterSpace v"
    by (simp add: noOuterSpace_trim)
  from noOuterSpace_cellAt [OF this] show ?thesis
    by (simp add: parseRow_def Let_def)
qed

lemma splitOn_nonempty: "splitOn d s \<noteq> []"
  by (induction s) (auto split: list.splits)

lemma splitOn_no_sep: "d \<notin> set a \<Longrightarrow> splitOn d a = [a]"
  by (induction a) auto

lemma splitOn_append_sep: "d \<notin> set a \<Longrightarrow> splitOn d (a @ d # b) = a # splitOn d b"
  by (induction a) auto

lemma splitOn_join:
  assumes "cells \<noteq> []" and "\<forall>c \<in> set cells. d \<notin> set c"
  shows "splitOn d (join [d] cells) = cells"
  using assms
proof (induction cells)
  case Nil
  then show ?case by simp
next
  case (Cons x xs)
  show ?case
  proof (cases xs)
    case Nil
    with Cons.prems show ?thesis by (simp add: splitOn_no_sep)
  next
    case (Cons y ys)
    with Cons.IH Cons.prems have "splitOn d (join [d] (y # ys)) = y # ys" by simp
    with Cons Cons.prems show ?thesis by (simp add: splitOn_append_sep)
  qed
qed

text \<open>
  Claim C10. No field of a row that the parser produces has leading or trailing white space,
  since every tab-separated cell of a data line is trimmed before it is stored; so lines
  whose cells differ only in surrounding white space give equal rows.
\<close>

theorem fields_trimmed:
  "(parsePastedData text = Inr data \<and> row \<in> set data \<longrightarrow>
      noOuterSpace (number row) \<and> noOuterSpace (state row) \<and> noOuterSpace (priority row)
      \<and> noOuterSpace (assignmentGroup row) \<and> noOuterSpace (shortDescription row))
   \<and> (map trim cells = map trim cells' \<and> (\<forall>c \<in> set cells \<union> set cells'. TAB \<notin> set c) \<longrightarrow>
        parseRow idx (join [TAB] cells) = parseRow idx (join [TAB] cells'))"
proof -
  have a: "noOuterSpace (number row) \<and> noOuterSpace (state row) \<and> noOuterSpace (priority row)
      \<and> noOuterSpace (assignmentGroup row) \<and> noOuterSpace (shortDescription row)"
    if p: "parsePastedData text = Inr data" and r: "row \<in> set data"
  proof -
    from parsePastedData_InrD(2) [OF p] r obtain l where
      "row = parseRow (headerIndices (hd (textLines text))) l"
      by (auto simp: parseRows_filter)
    with noOuterSpace_parseRow show ?thesis by simp
  qed
  have b: "parseRow idx (join [TAB] cells) = parseRow idx (join [TAB] cells')"
    if m: "map trim cells = map trim cells'" and t: "\<forall>c \<in> set cells \<union> set cells'. TAB \<notin> set c"
  proof (cases "cells = []")
    case True
    with m show ?thesis by simp
  next
    case False
    with m have "cells' \<noteq> []" by auto
    with False t have "splitOn TAB (join [TAB] cells) = cells"
      and "splitOn TAB (join [TAB] cells') = cells'"
      by (simp_all add: splitOn_join)
    with m show ?thesis
      by (simp add: parseRow_def)
  qed
  from a b show ?thesis by blast
qed

theorem fields_trimmed_witness:
  "parsePastedData (''Number'' @ [TAB] @ ''State'' @ [TAB] @ ''Short description'' @ [NL]
       @ ([CHR 0xA0] @ ''INC7  '') @ [TAB] @ ''  In Progress '' @ [TAB] @ '' Job: OMS_A '')
     = Inr [\<lparr>number = ''INC7'', state = ''In Progress'', priority = [], assignmentGroup = [],
              shortDescription = ''Job: OMS_A''\<rparr>]
   \<and> noOuterSpace ''In Progress''
   \<and> parseRow (headerIndices (''State'' @ [TAB] @ ''Number''))
        (join [TAB] [''  New '', [CHR 0xA0] @ ''INC7''])
      = parseRow (headerIndices (''State'' @ [TAB] @ ''Number'')) (join [TAB] [''New'', ''INC7   ''])"
proof -
  let ?text = "''Number'' @ [TAB] @ ''State'' @ [TAB] @ ''Short description'' @ [NL]
       @ ([CHR 0xA0] @ ''INC7  '') @ [TAB] @ ''  In Progress '' @ [TAB] @ '' Job: OMS_A ''"
  let ?row = "\<lparr>number = ''INC7'', state = ''In Progress'', priority = [], assignmentGroup = [],
              shortDescription = ''Job: OMS_A''\<rparr>"
  have p: "parsePastedData ?text = Inr [?row]"
    by code_simp
  have m: "map trim [''  New '', [CHR 0xA0] @ ''INC7''] = map trim [''New'', ''INC7   '']"
    by code_simp
  have t: "\<forall>c \<in> set [''  New '', [CHR 0xA0] @ ''INC7''] \<union> set [''New'', ''INC7   '']. TAB \<notin> set c"
    by simp
  from fields_trimmed [of ?text "[?row]" ?row "[''  New '', [CHR 0xA0] @ ''INC7'']" "[''New'', ''INC7   '']"
      "headerIndices (''State'' @ [TAB] @ ''Number'')"] p m t
  have "noOuterSpace (state ?row)
    \<and> parseRow (headerIndices (''State'' @ [TAB] @ ''Number'')) (join [TAB] [''  New '', [CHR 0xA0] @ ''INC7''])
      = parseRow (headerIndices (''State'' @ [TAB] @ ''Number'')) (join [TAB] [''New'', ''INC7   ''])"
    by simp
  with p show ?thesis by simp
qed


section \<open>Properties of the serialiser\<close>

lemma foldl_append_concat:
  "foldl (\<lambda>output row. output @ f row) acc rows = acc @ concat (map f rows)"
  by (induction rows arbitrary: acc) simp_all

lemma join_rowValues: "join [TAB] (rowValues row) = outputLine row"
  by (simp add: rowValues_def outputLine_def)

lemma join_OUTPUT_COLUMNS: "join [TAB] OUTPUT_COLUMNS = outputHeaderLine"
  by (simp add: OUTPUT_COLUMNS_def outputHeaderLine_def)

lemma generate_nonempty:
  assumes "rows \<noteq> []"
  shows "generateTabSeparatedOutput rows =
     outputHeaderLine @ [NL] @ concat (map (\<lambda>row. outputLine row @ [NL]) rows)"
  using assms
  by (simp add: generateTabSeparatedOutput_def foldl_append_concat join_rowValues
      join_OUTPUT_COLUMNS)

text \<open>
  Claim C8, as amended. Of a run with at least one retained row the serialised output is the
  header line "Number, State, Priority, Assignment group, filled by, Job name" (tab
  separated) followed by one line per row with the row's number, state, normalised
  priority, assignmentGroup, filledBy and jobName, in this order, whatever the columns of
  the input were; of an empty sequence of rows the output is the empty string.
\<close>

theorem serialized_output:
  "generateTabSeparatedOutput [] = []
   \<and> (rows \<noteq> [] \<longrightarrow>
        generateTabSeparatedOutput rows =
          outputHeaderLine @ [NL] @ concat (map (\<lambda>row. outputLine row @ [NL]) rows))
   \<and> (rawData \<noteq> [] \<longrightarrow>
        generateTabSeparatedOutput (processData rawData fb) =
          outputHeaderLine @ [NL]
          @ concat (map (\<lambda>row. number row @ [TAB] @ state row @ [TAB]
                           @ processPriority (priority row) @ [TAB] @ assignmentGroup row @ [TAB]
                           @ fb @ [TAB] @ extractJobName (shortDescription row) @ [NL]) rawData))"
proof -
  have e: "generateTabSeparatedOutput [] = []"
    by (simp add: generateTabSeparatedOutput_def)
  have p: "generateTabSeparatedOutput (processData rawData fb) =
          outputHeaderLine @ [NL]
          @ concat (map (\<lambda>row. number row @ [TAB] @ state row @ [TAB]
                           @ processPriority (priority row) @ [TAB] @ assignmentGroup row @ [TAB]
                           @ fb @ [TAB] @ extractJobName (shortDescription row) @ [NL]) rawData)"
    if "rawData \<noteq> []"
  proof -
    from that have "processData rawData fb \<noteq> []"
      by (simp add: processData_def)
    from generate_nonempty [OF this] show ?thesis
      by (simp add: processData_def outputLine_def Let_def comp_def)
  qed
  from e p generate_nonempty [of rows] show ?thesis by blast
qed

theorem serialized_output_witness:
  "generateTabSeparatedOutput
     (processData [\<lparr>number = ''INC1'', state = ''New'', priority = ''3 - Moderate'',
                    assignmentGroup = ''OPS'', shortDescription = ''Job:OMS_A_Sunday''\<rparr>] ''me'')
   = ''Number'' @ [TAB] @ ''State'' @ [TAB] @ ''Priority'' @ [TAB] @ ''Assignment group'' @ [TAB]
       @ ''filled by'' @ [TAB] @ ''Job name'' @ [NL]
     @ ''INC1'' @ [TAB] @ ''New'' @ [TAB] @ ''Medium'' @ [TAB] @ ''OPS'' @ [TAB] @ ''me'' @ [TAB]
       @ ''OMS_A'' @ [NL]"
proof -
  let ?raw = "[\<lparr>number = ''INC1'', state = ''New'', priority = ''3 - Moderate'',
                    assignmentGroup = ''OPS'', shortDescription = ''Job:OMS_A_Sunday''\<rparr>]"
  have pp: "processPriority ''3 - Moderate'' = ''Medium''"
    by code_simp
  have jn: "extractJobName ''Job:OMS_A_Sunday'' = ''OMS_A''"
    by code_simp
  have "?raw \<noteq> []" by simp
  with serialized_output [of "[]" ?raw "''me''"]
  have "generateTabSeparatedOutput (processData ?raw ''me'') =
          outputHeaderLine @ [NL]
          @ concat (map (\<lambda>row. number row @ [TAB] @ state row @ [TAB]
                           @ processPriority (priority row) @ [TAB] @ assignmentGroup row @ [TAB]
                           @ ''me'' @ [TAB] @ extractJobName (shortDescription row) @ [NL]) ?raw)"
    by blast
  then show ?thesis
    by (simp add: pp jn outputHeaderLine_def)
qed

theorem serialized_output_empty_counterexample:
  "parsePastedData (''Number'' @ [TAB] @ ''Short description'') = Inr []
   \<and> generateTabSeparatedOutput (processData [] ''me'') = []
   \<and> generateTabSeparatedOutput (processData [] ''me'')
       \<noteq> outputHeaderLine @ [NL]
          @ concat (map (\<lambda>row. outputLine row @ [NL]) (processData [] ''me''))"
proof -
  have "parsePastedData (''Number'' @ [TAB] @ ''Short description'') = Inr []"
    by code_simp
  then show ?thesis
    by (simp add: processData_def generateTabSeparatedOutput_def outputHeaderLine_def)
qed


section \<open>Serialising and parsing again\<close>

lemma trim_eq_Nil: "trim s = [] \<longleftrightarrow> blank s"
proof
  assume "trim s = []"
  then have "dropWhile isWhiteSpace (rev (dropWhile isWhiteSpace s)) = []"
    by (simp add: trim_def)
  then have all: "\<forall>x \<in> set (dropWhile isWhiteSpace s). isWhiteSpace x"
    by (simp add: dropWhile_eq_Nil_conv)
  have "dropWhile isWhiteSpace s = []"
  proof (rule ccontr)
    assume ne: "dropWhile isWhiteSpace s \<noteq> []"
    then have "\<not> isWhiteSpace (hd (dropWhile isWhiteSpace s))"
      by (rule hd_dropWhile)
    moreover from ne have "hd (dropWhile isWhiteSpace s) \<in> set (dropWhile isWhiteSpace s)"
      by (rule hd_in_set)
    ultimately show False using all by blast
  qed
  then show "blank s"
    by (simp add: blank_def dropWhile_eq_Nil_conv list_all_iff)
next
  assume "blank s"
  then have "dropWhile isWhiteSpace s = []"
    by (simp add: blank_def dropWhile_eq_Nil_conv list_all_iff)
  then show "trim s = []"
    by (simp add: trim_def del: dropWhile_eq_Nil_conv)
qed

lemma blank_append [simp]: "blank (a @ b) \<longleftrightarrow> blank a \<and> blank b"
  by (simp add: blank_def)

lemma blank_Nil [simp]: "blank []"
  by (simp add: blank_def)

lemma blank_Cons [simp]: "blank (c # s) \<longleftrightarrow> isWhiteSpace c \<and> blank s"
  by (simp add: blank_def)

lemma trim_append_blank:
  assumes "blank w"
  shows "trim (x @ w) = trim x"
proof (cases "blank x")
  case True
  with assms have "blank (x @ w)" by simp
  then have "trim (x @ w) = []" by (simp only: trim_eq_Nil)
  moreover from True have "trim x = []" by (simp only: trim_eq_Nil)
  ultimately show ?thesis by simp
next
  case False
  then have "\<not> (\<forall>c \<in> set x. isWhiteSpace c)"
    by (simp add: blank_def list_all_iff)
  then have "dropWhile isWhiteSpace (x @ w) = dropWhile isWhiteSpace x @ w"
    by (auto simp: dropWhile_append)
  moreover from assms have "\<forall>c \<in> set (rev w). isWhiteSpace c"
    by (simp add: blank_def list_all_iff)
  ultimately show ?thesis
    by (simp add: trim_def dropWhile_append del: dropWhile_eq_Nil_conv)
qed

lemma trim_rtrim: "\<not> isWhiteSpace c \<Longrightarrow> trim (c # r) = rtrim (c # r)"
  by (simp add: trim_def rtrim_def)

lemma rtrim_append: "rtrim (a @ b) = (if blank b then rtrim a else a @ rtrim b)"
  by (simp add: rtrim_def dropWhile_append blank_def list_all_iff)

lemma rtrim_decomp: "\<exists>w. blank w \<and> s = rtrim s @ w"
proof -
  have "blank (rev (takeWhile isWhiteSpace (rev s)))"
    by (simp add: blank_def list_all_iff) (metis set_takeWhileD)
  moreover have "s = rtrim s @ rev (takeWhile isWhiteSpace (rev s))"
    unfolding rtrim_def by (rule dropWhile_rev_prefix)
  ultimately show ?thesis by blast
qed

lemma splitOn_append:
  "splitOn d (a @ b) =
     butlast (splitOn d a) @ (last (splitOn d a) @ hd (splitOn d b)) # tl (splitOn d b)"
proof (induction a)
  case Nil
  then show ?case using splitOn_nonempty [of d b] by simp
next
  case (Cons c a)
  show ?case
  proof (cases "c = d")
    case True
    with Cons splitOn_nonempty [of d a] show ?thesis by simp
  next
    case False
    from splitOn_nonempty [of d a] obtain x xs where sa: "splitOn d a = x # xs"
      by (cases "splitOn d a") auto
    show ?thesis
    proof (cases xs)
      case Nil
      with False sa Cons show ?thesis by simp
    next
      case (Cons y ys)
      with False sa Cons.IH show ?thesis by simp
    qed
  qed
qed

lemma splitOn_pieces: "p \<in> set (splitOn d w) \<Longrightarrow> set p \<subseteq> set w"
proof (induction w arbitrary: p)
  case Nil
  then show ?case by simp
next
  case (Cons c w)
  from splitOn_nonempty [of d w] obtain y ys where sw: "splitOn d w = y # ys"
    by (cases "splitOn d w") auto
  show ?case
  proof (cases "c = d")
    case True
    with Cons.prems have "p = [] \<or> p \<in> set (splitOn d w)" by simp
    with Cons.IH show ?thesis by auto
  next
    case False
    with Cons.prems sw have "p = c # y \<or> p \<in> set ys" by simp
    moreover from Cons.IH [of y] sw have "set y \<subseteq> set w" by simp
    moreover have "set q \<subseteq> set w" if "q \<in> set ys" for q
      using Cons.IH [of q] sw that by simp
    ultimately show ?thesis by auto
  qed
qed

lemma splitOn_blank_pieces:
  assumes "blank w" and "x \<in> set (splitOn d w)"
  shows "blank x"
  using splitOn_pieces [OF assms(2)] assms(1)
  by (auto simp: blank_def list_all_iff)

lemma cellAt_append_empties:
  assumes "\<forall>v \<in> set es. v = []"
  shows "cellAt (vs @ es) e = cellAt vs e"
proof (cases e)
  case None
  then show ?thesis by (simp add: cellAt_def)
next
  case (Some i)
  show ?thesis
  proof (cases "i < length vs")
    case True
    with Some show ?thesis by (simp add: cellAt_def nth_append)
  next
    case False
    show ?thesis
    proof (cases "i < length (vs @ es)")
      case True
      with False have "(vs @ es) ! i \<in> set es"
        by (simp add: nth_append)
      with assms have "(vs @ es) ! i = []" by blast
      with Some False True show ?thesis by (simp add: cellAt_def)
    next
      case False
      with Some show ?thesis by (simp add: cellAt_def)
    qed
  qed
qed

lemma parseRow_append_blank:
  assumes "blank w"
  shows "parseRow idx (l @ w) = parseRow idx l"
proof -
  let ?sl = "splitOn TAB l" and ?sw = "splitOn TAB w"
  have sl: "?sl = butlast ?sl @ [last ?sl]"
    using splitOn_nonempty [of TAB l] by simp
  have hdw: "blank (hd ?sw)"
    using splitOn_blank_pieces [OF assms, of "hd ?sw" TAB] splitOn_nonempty [of TAB w] by simp
  have tlw: "\<forall>v \<in> set (map trim (tl ?sw)). v = []"
  proof
    fix v assume "v \<in> set (map trim (tl ?sw))"
    then obtain x where x: "x \<in> set (tl ?sw)" and v: "v = trim x" by auto
    from x have "x \<in> set ?sw"
      using splitOn_nonempty [of TAB w] by (metis list.set_sel(2))
    from splitOn_blank_pieces [OF assms this] v show "v = []"
      by (simp add: trim_eq_Nil)
  qed
  have "map trim (splitOn TAB (l @ w)) =
      map trim (butlast ?sl) @ trim (last ?sl @ hd ?sw) # map trim (tl ?sw)"
    by (simp add: splitOn_append)
  also have "\<dots> = map trim (butlast ?sl @ [last ?sl]) @ map trim (tl ?sw)"
    using hdw by (simp add: trim_append_blank)
  also have "\<dots> = map trim ?sl @ map trim (tl ?sw)"
    using sl by simp
  finally have "map trim (splitOn TAB (l @ w)) = map trim ?sl @ map trim (tl ?sw)" .
  then show ?thesis
    by (simp add: parseRow_def Let_def cellAt_append_empties [OF tlw])
qed

lemma cellAt_single_empty: "cellAt [[]] e = []"
  by (cases e) (simp_all add: cellAt_def)

lemma parseRow_Nil:
  "parseRow idx [] =
     \<lparr>number = [], state = [], priority = [], assignmentGroup = [], shortDescription = []\<rparr>"
  by (simp add: parseRow_def trim_def cellAt_single_empty)

lemma blank_line_dropped:
  assumes "blank l"
  shows "\<not> keepRow (parseRow idx l)"
proof -
  from parseRow_append_blank [OF assms, of idx "[]"] have "parseRow idx l = parseRow idx []"
    by simp
  then show ?thesis
    by (simp add: keepRow_def parseRow_Nil)
qed

lemma rows_filter_nonblank:
  "filter keepRow (map (parseRow idx) (filter (\<lambda>line. trim line \<noteq> []) ls)) =
   filter keepRow (map (parseRow idx) ls)"
  by (induction ls) (simp_all add: trim_eq_Nil blank_line_dropped)

lemma rows_all_blank:
  assumes "\<forall>l \<in> set ls. blank l"
  shows "filter keepRow (map (parseRow idx) ls) = []"
  using assms by (induction ls) (simp_all add: blank_line_dropped)

lemma rows_rtrim:
  "filter keepRow (map (parseRow idx) (splitOn NL (rtrim t))) =
   filter keepRow (map (parseRow idx) (splitOn NL t))"
proof -
  from rtrim_decomp [of t] obtain w where w: "blank w" and t: "t = rtrim t @ w" by blast
  let ?sa = "splitOn NL (rtrim t)" and ?sw = "splitOn NL w"
  have sa: "?sa = butlast ?sa @ [last ?sa]"
    using splitOn_nonempty [of NL "rtrim t"] by simp
  have hdw: "blank (hd ?sw)"
    using splitOn_blank_pieces [OF w, of "hd ?sw" NL] splitOn_nonempty [of NL w] by simp
  have "\<forall>l \<in> set (tl ?sw). blank l"
    using splitOn_blank_pieces [OF w] splitOn_nonempty [of NL w] by (metis list.set_sel(2))
  then have tlw: "filter keepRow (map (parseRow idx) (tl ?sw)) = []"
    by (rule rows_all_blank)
  have "splitOn NL t = butlast ?sa @ (last ?sa @ hd ?sw) # tl ?sw"
    using splitOn_append [of NL "rtrim t" w] t by simp
  then have "filter keepRow (map (parseRow idx) (splitOn NL t)) =
      filter keepRow (map (parseRow idx) (butlast ?sa))
      @ filter keepRow [parseRow idx (last ?sa @ hd ?sw)]"
    using tlw by simp
  also have "\<dots> = filter keepRow (map (parseRow idx) (butlast ?sa))
      @ filter keepRow [parseRow idx (last ?sa)]"
    using hdw by (simp add: parseRow_append_blank)
  also have "\<dots> = filter keepRow (map (parseRow idx) (butlast ?sa @ [last ?sa]))"
    by simp
  also have "\<dots> = filter keepRow (map (parseRow idx) ?sa)"
    using sa by simp
  finally show ?thesis by simp
qed

lemma splitOn_terminated_lines:
  assumes "\<forall>l \<in> set ls. NL \<notin> set l"
  shows "splitOn NL (concat (map (\<lambda>l. l @ [NL]) ls)) = ls @ [[]]"
  using assms by (induction ls) (simp_all add: splitOn_append_sep)

lemma headerIndices_output:
  "headerIndices outputHeaderLine NUMBER = Some 0"
  "headerIndices outputHeaderLine STATE = Some 1"
  "headerIndices outputHeaderLine PRIORITY = Some 2"
  "headerIndices outputHeaderLine ASSIGNMENT_GROUP = Some 3"
  "headerIndices outputHeaderLine SHORT_DESCRIPTION = None"
  by code_simp+

lemma outputHeaderLine_facts:
  "NL \<notin> set outputHeaderLine"
  "\<not> blank outputHeaderLine"
  "rtrim outputHeaderLine = outputHeaderLine"
  "\<exists>r. outputHeaderLine = CHR ''N'' # r"
  by (simp_all add: outputHeaderLine_def rtrim_def isWhiteSpace_def)

lemma parseRow_outputLine:
  assumes "cleanRow r"
  shows "parseRow (headerIndices outputHeaderLine) (outputLine r) = toRawRow r"
proof -
  from assms have tabs: "TAB \<notin> set (outNumber r)" "TAB \<notin> set (outState r)"
    "TAB \<notin> set (outPriority r)" "TAB \<notin> set (outAssignmentGroup r)"
    and trims: "trim (outNumber r) = outNumber r" "trim (outState r) = outState r"
    "trim (outPriority r) = outPriority r" "trim (outAssignmentGroup r) = outAssignmentGroup r"
    by (simp_all add: cleanRow_def cleanField_def)
  have "splitOn TAB (outputLine r) =
      outNumber r # outState r # outPriority r # outAssignmentGroup r
        # splitOn TAB (filledBy r @ [TAB] @ jobName r)"
    using tabs by (simp add: outputLine_def splitOn_append_sep)
  then have "map trim (splitOn TAB (outputLine r)) =
      outNumber r # outState r # outPriority r # outAssignmentGroup r
        # map trim (splitOn TAB (filledBy r @ [TAB] @ jobName r))"
    using trims by simp
  then show ?thesis
    by (simp add: parseRow_def headerIndices_output cellAt_def toRawRow_def)
qed

lemma outputLine_no_NL:
  assumes "cleanRow r"
  shows "NL \<notin> set (outputLine r)"
  using assms by (simp add: cleanRow_def cleanField_def outputLine_def)

lemma textLines_generate:
  assumes ne: "rows \<noteq> []" and clean: "\<forall>r \<in> set rows. cleanRow r"
  shows "textLines (generateTabSeparatedOutput rows) \<noteq> []"
    and "hd (textLines (generateTabSeparatedOutput rows)) = outputHeaderLine"
    and "filter keepRow (map (parseRow idx) (tl (textLines (generateTabSeparatedOutput rows)))) =
         filter keepRow (map (parseRow idx) (map outputLine rows))"
proof -
  let ?H = outputHeaderLine
  let ?R = "concat (map (\<lambda>l. l @ [NL]) (map outputLine rows))"
  let ?T = "generateTabSeparatedOutput rows"
  have T: "?T = ?H @ NL # ?R"
    using generate_nonempty [OF ne] by (simp add: comp_def)
  from outputHeaderLine_facts(4) obtain h where h: "?H = CHR ''N'' # h" by blast
  have "trim ?T = rtrim ?T"
    unfolding T h by (simp add: trim_rtrim isWhiteSpace_def)
  also have "\<dots> = (if blank (NL # ?R) then rtrim ?H else ?H @ rtrim (NL # ?R))"
    unfolding T by (rule rtrim_append)
  finally have trimT: "trim ?T = (if blank ?R then ?H else ?H @ rtrim (NL # ?R))"
    by (simp add: outputHeaderLine_facts(3) isWhiteSpace_def)
  have nonblankH: "trim ?H \<noteq> []"
    using outputHeaderLine_facts(2) by (simp add: trim_eq_Nil)
  have lines: "splitOn NL ?R = map outputLine rows @ [[]]"
    using clean by (intro splitOn_terminated_lines) (auto simp: outputLine_no_NL)
  have goal: "textLines ?T \<noteq> [] \<and> hd (textLines ?T) = ?H
      \<and> filter keepRow (map (parseRow idx) (tl (textLines ?T))) =
         filter keepRow (map (parseRow idx) (map outputLine rows))"
  proof (cases "blank ?R")
    case True
    with trimT have "splitOn NL (trim ?T) = [?H]"
      by (simp add: splitOn_no_sep outputHeaderLine_facts(1))
    with nonblankH have tl: "textLines ?T = [?H]"
      by (simp add: textLines_def)
    have "\<forall>l \<in> set (map outputLine rows). blank l"
    proof
      fix l assume "l \<in> set (map outputLine rows)"
      then have "set l \<subseteq> set ?R" by auto
      with True show "blank l"
        by (auto simp: blank_def list_all_iff)
    qed
    then have "filter keepRow (map (parseRow idx) (map outputLine rows)) = []"
      by (rule rows_all_blank)
    with tl show ?thesis by simp
  next
    case False
    have "rtrim (NL # ?R) = NL # rtrim ?R"
      using rtrim_append [of "[NL]" ?R] False by simp
    with trimT False have "trim ?T = ?H @ NL # rtrim ?R" by simp
    then have "splitOn NL (trim ?T) = ?H # splitOn NL (rtrim ?R)"
      by (simp add: splitOn_append_sep outputHeaderLine_facts(1))
    with nonblankH have tl: "textLines ?T =
        ?H # filter (\<lambda>line. trim line \<noteq> []) (splitOn NL (rtrim ?R))"
      by (simp add: textLines_def)
    have "filter keepRow (map (parseRow idx) (tl (textLines ?T))) =
        filter keepRow (map (parseRow idx) (splitOn NL (rtrim ?R)))"
      by (simp add: tl rows_filter_nonblank)
    also have "\<dots> = filter keepRow (map (parseRow idx) (splitOn NL ?R))"
      by (rule rows_rtrim)
    also have "\<dots> = filter keepRow (map (parseRow idx) (map outputLine rows))"
      unfolding lines by (simp add: blank_line_dropped)
    finally show ?thesis using tl by simp
  qed
  from goal show "textLines ?T \<noteq> []" by simp
  from goal show "hd (textLines ?T) = ?H" by simp
  from goal show "filter keepRow (map (parseRow idx) (tl (textLines ?T))) =
         filter keepRow (map (parseRow idx) (map outputLine rows))" by simp
qed

text \<open>
  What the row loop of the parser would read from a serialised text: for rows whose
  parsed fields hold no tab, no line break and no white space at their ends, the lines
  after the header line give back, in order, the rows with a non-empty number. The
  program does not get that far, as the theorem after this lemma shows.
\<close>

lemma roundtrip_rows:
  assumes "rows \<noteq> []" and "\<forall>r \<in> set rows. cleanRow r"
  shows "textLines (generateTabSeparatedOutput rows) \<noteq> []
    \<and> hd (textLines (generateTabSeparatedOutput rows)) = outputHeaderLine
    \<and> headerIndices outputHeaderLine NUMBER = Some 0
    \<and> headerIndices outputHeaderLine STATE = Some 1
    \<and> headerIndices outputHeaderLine PRIORITY = Some 2
    \<and> headerIndices outputHeaderLine ASSIGNMENT_GROUP = Some 3
    \<and> headerIndices outputHeaderLine SHORT_DESCRIPTION = None
    \<and> parseRows (headerIndices (hd (textLines (generateTabSeparatedOutput rows))))
         (tl (textLines (generateTabSeparatedOutput rows))) []
       = map toRawRow (filter (\<lambda>r. outNumber r \<noteq> []) rows)"
proof -
  let ?T = "generateTabSeparatedOutput rows"
  let ?idx = "headerIndices outputHeaderLine"
  note tg = textLines_generate [OF assms]
  have "parseRows (headerIndices (hd (textLines ?T))) (tl (textLines ?T)) [] =
      filter keepRow (map (parseRow ?idx) (tl (textLines ?T)))"
    by (simp add: tg(2) parseRows_keepRow)
  also have "\<dots> = filter keepRow (map (parseRow ?idx) (map outputLine rows))"
    by (rule tg(3))
  also have "\<dots> = filter keepRow (map toRawRow rows)"
    using assms(2) by (simp add: parseRow_outputLine cong: map_cong)
  also have "\<dots> = map toRawRow (filter (\<lambda>r. outNumber r \<noteq> []) rows)"
    by (simp add: filter_map comp_def keepRow_def toRawRow_def)
  finally show ?thesis
    using tg(1,2) headerIndices_output by simp
qed

lemma roundtrip_rows_example:
  "parseRows
     (headerIndices (hd (textLines (generateTabSeparatedOutput
        [\<lparr>outNumber = ''INC1'', outState = ''In Progress'', outPriority = ''High'',
           outAssignmentGroup = ''OPS'', filledBy = ''me'', jobName = ''OMS_A''\<rparr>,
         \<lparr>outNumber = [], outState = ''New'', outPriority = ''Low'',
           outAssignmentGroup = ''OPS'', filledBy = ''me'', jobName = []\<rparr>]))))
     (tl (textLines (generateTabSeparatedOutput
        [\<lparr>outNumber = ''INC1'', outState = ''In Progress'', outPriority = ''High'',
           outAssignmentGroup = ''OPS'', filledBy = ''me'', jobName = ''OMS_A''\<rparr>,
         \<lparr>outNumber = [], outState = ''New'', outPriority = ''Low'',
           outAssignmentGroup = ''OPS'', filledBy = ''me'', jobName = []\<rparr>])))
     []
   = [\<lparr>number = ''INC1'', state = ''In Progress'', priority = ''High'',
        assignmentGroup = ''OPS'', shortDescription = []\<rparr>]"
proof -
  let ?r1 = "\<lparr>outNumber = ''INC1'', outState = ''In Progress'', outPriority = ''High'',
           outAssignmentGroup = ''OPS'', filledBy = ''me'', jobName = ''OMS_A''\<rparr>"
  let ?r2 = "\<lparr>outNumber = [], outState = ''New'', outPriority = ''Low'',
           outAssignmentGroup = ''OPS'', filledBy = ''me'', jobName = []\<rparr>"
  have c1: "cleanRow ?r1"
    by code_simp
  have c2: "cleanRow ?r2"
    by code_simp
  have ne: "[?r1, ?r2] \<noteq> []"
    by simp
  from c1 c2 have clean: "\<forall>r \<in> set [?r1, ?r2]. cleanRow r"
    by simp
  from roundtrip_rows [OF ne clean]
  have "parseRows (headerIndices (hd (textLines (generateTabSeparatedOutput [?r1, ?r2]))))
         (tl (textLines (generateTabSeparatedOutput [?r1, ?r2]))) []
       = map toRawRow (filter (\<lambda>r. outNumber r \<noteq> []) [?r1, ?r2])"
    by blast
  then show ?thesis
    by (simp add: toRawRow_def)
qed

text \<open>
  Claim C2. Round trip: serialising a sequence of output rows with the fixed header and
  parsing the text again succeeds and gives one row per retained row with the same
  number, state, priority and assignmentGroup. The program does not do this: the header
  it writes has Number in column 0 and no Short description column, and the check of the
  required columns takes the index 0 for a missing column (see claim C1), so the parser
  rejects every text that the serialiser writes for at least one row. Below, an input is
  parsed and processed, and the serialised result is rejected.
\<close>

theorem roundtrip_rejected:
  "parsePastedData
     (''State'' @ [TAB] @ ''Number'' @ [TAB] @ ''Priority'' @ [TAB] @ ''Assignment group'' @ [TAB]
        @ ''Short description'' @ [NL]
      @ ''New'' @ [TAB] @ ''INC1'' @ [TAB] @ ''2 - High'' @ [TAB] @ ''OPS'' @ [TAB]
        @ ''Job:OMS_A_Sunday'')
     = Inr [\<lparr>number = ''INC1'', state = ''New'', priority = ''2 - High'',
              assignmentGroup = ''OPS'', shortDescription = ''Job:OMS_A_Sunday''\<rparr>]
   \<and> processData [\<lparr>number = ''INC1'', state = ''New'', priority = ''2 - High'',
              assignmentGroup = ''OPS'', shortDescription = ''Job:OMS_A_Sunday''\<rparr>] ''me''
     = [\<lparr>outNumber = ''INC1'', outState = ''New'', outPriority = ''High'',
          outAssignmentGroup = ''OPS'', filledBy = ''me'', jobName = ''OMS_A''\<rparr>]
   \<and> generateTabSeparatedOutput
        [\<lparr>outNumber = ''INC1'', outState = ''New'', outPriority = ''High'',
           outAssignmentGroup = ''OPS'', filledBy = ''me'', jobName = ''OMS_A''\<rparr>]
     = ''Number'' @ [TAB] @ ''State'' @ [TAB] @ ''Priority'' @ [TAB] @ ''Assignment group'' @ [TAB]
         @ ''filled by'' @ [TAB] @ ''Job name'' @ [NL]
       @ ''INC1'' @ [TAB] @ ''New'' @ [TAB] @ ''High'' @ [TAB] @ ''OPS'' @ [TAB] @ ''me'' @ [TAB]
         @ ''OMS_A'' @ [NL]
   \<and> parsePastedData (generateTabSeparatedOutput
        [\<lparr>outNumber = ''INC1'', outState = ''New'', outPriority = ''High'',
           outAssignmentGroup = ''OPS'', filledBy = ''me'', jobName = ''OMS_A''\<rparr>])
     = Inl RequiredColumnsMissing"
  by code_simp



section \<open>Properties of the priority normaliser\<close>

















end
